theory Spec2Isabelle
  imports Main "HOL-Library.Word" "HOL-Library.Sublist"
begin

unbundle bit_operations_syntax

section \<open>Python values\<close>

text \<open>
  A Python \<open>str\<close> is a sequence of Unicode code points, and \<open>ord\<close> reads a character as
  its code point, which may exceed 255. A string is therefore a list of code points; the
  digits \<open>0\<close> and \<open>1\<close> are the code points 48 and 49. \<open>str\<close> turns an Isabelle literal
  into such a string. A sample of an image is a numpy \<open>uint8\<close>.
\<close>

type_synonym pystr = "nat list"
type_synonym sample = "8 word"

definition str :: "string \<Rightarrow> pystr" where
  "str s = map of_char s"

datatype py_error = ValueError | IndexError

text \<open>\<open>format(n, 'b')\<close>: the binary digits of \<open>n\<close>, most significant first, no padding.\<close>

fun bin_digits :: "nat \<Rightarrow> pystr" where
  "bin_digits n = (if n < 2 then [48 + n] else bin_digits (n div 2) @ [48 + n mod 2])"

declare bin_digits.simps [simp del]

text \<open>\<open>format(n, '08b')\<close>: the same digits, filled with \<open>0\<close> on the left up to width 8. A
  number of more than 8 binary digits keeps all of them.\<close>

definition format_08b :: "nat \<Rightarrow> pystr" where
  "format_08b n = replicate (8 - length (bin_digits n)) 48 @ bin_digits n"

text \<open>\<open>str(n)\<close> of a non-negative integer: its decimal digits.\<close>

fun str_nat :: "nat \<Rightarrow> pystr" where
  "str_nat n = (if n < 10 then [48 + n] else str_nat (n div 10) @ [48 + n mod 10])"

declare str_nat.simps [simp del]

text \<open>
  \<open>int(s, 2)\<close> on a string of binary digits; the empty string and any other character
  raise \<open>ValueError\<close>. (Python also accepts a sign, a \<open>0b\<close> prefix, underscores between
  digits and surrounding white space; no string built in this program contains them,
  and the model raises there.)
\<close>

definition int_base2 :: "pystr \<Rightarrow> py_error + nat" where
  "int_base2 s =
     (if s \<noteq> [] \<and> list_all (\<lambda>c. c = 48 \<or> c = 49) s
      then Inr (foldl (\<lambda>a c. 2 * a + (c - 48)) 0 s)
      else Inl ValueError)"

text \<open>\<open>int(c)\<close> on a one-character string: an ASCII decimal digit gives its value, any other
  character raises \<open>ValueError\<close>.\<close>

definition int_digit :: "nat \<Rightarrow> py_error + nat" where
  "int_digit c = (if 48 \<le> c \<and> c \<le> 57 then Inr (c - 48) else Inl ValueError)"

text \<open>\<open>chr(n)\<close>: the character of code point \<open>n\<close>, \<open>ValueError\<close> beyond \<open>0x10FFFF\<close>.\<close>

definition py_chr :: "nat \<Rightarrow> py_error + nat" where
  "py_chr n = (if n < 1114112 then Inr n else Inl ValueError)"

text \<open>\<open>s.find(sub)\<close>: the lowest index at which \<open>sub\<close> occurs in \<open>s\<close>, or \<open>-1\<close>.\<close>

fun str_find :: "pystr \<Rightarrow> pystr \<Rightarrow> int" where
  "str_find [] sub = (if sub = [] then 0 else - 1)"
| "str_find (c # s) sub =
     (if prefix sub (c # s) then 0
      else (let r = str_find s sub in if r = - 1 then - 1 else r + 1))"

section \<open>The bit codec of \<open>ImageSteganography\<close> (stag.py and hex1.py)\<close>

text \<open>\<open>string_to_binary\<close>: \<open>''.join(format(ord(char), '08b') for char in text)\<close>.\<close>

definition string_to_binary :: "pystr \<Rightarrow> pystr" where
  "string_to_binary txt = concat (map (\<lambda>char. format_08b char) txt)"

text \<open>The loop of \<open>binary_to_string\<close>: \<open>i\<close> runs over \<open>range(0, len(binary), 8)\<close>, each slice
  \<open>binary[i:i+8]\<close> is parsed in base 2 and its character appended to \<open>chars\<close>.\<close>

function binary_to_string_loop :: "pystr \<Rightarrow> nat \<Rightarrow> pystr \<Rightarrow> py_error + pystr" where
  "binary_to_string_loop binary i chars =
     (if i < length binary then
        (case int_base2 (take 8 (drop i binary)) of
           Inl e \<Rightarrow> Inl e
         | Inr n \<Rightarrow>
            (case py_chr n of
               Inl e \<Rightarrow> Inl e
             | Inr c \<Rightarrow> binary_to_string_loop binary (i + 8) (chars @ [c])))
      else Inr chars)"
  by pat_completeness auto
termination
  by (relation "measure (\<lambda>(binary, i, chars). length binary - i)") auto

declare binary_to_string_loop.simps [simp del]

definition binary_to_string :: "pystr \<Rightarrow> py_error + pystr" where
  "binary_to_string binary0 =
     (let binary = take (length binary0 - length binary0 mod 8) binary0
      in binary_to_string_loop binary 0 [])"

section \<open>Hiding and extracting: \<open>ImageSteganography\<close> (stag.py)\<close>

text \<open>
  The image file is outside the model: an image is the flat array of its samples in the
  order of \<open>ravel()\<close>, as \<open>cv2.imread\<close> or \<open>PIL\<close> loaded it, and a written file is the array
  handed to \<open>imwrite\<close> or \<open>save\<close>. \<open>img.size\<close> is the number of elements of that array. The
  outcome of \<open>hide_text_in_image\<close> records the returned flag, the diagnostic that was
  printed, the loaded array as the call leaves it, and the array written to
  \<open>output_path\<close>, if any.
\<close>

datatype hide_report =
    Image_too_small (required: nat) (available: nat)
  | Message_too_long (needs: nat) (capacity: nat)
  | Error_hiding py_error
  | Text_hidden nat

record hide_outcome =
  returned :: bool
  report :: hide_report
  carrier :: "sample list"
  saved :: "sample list option"

definition delimiter :: pystr where
  "delimiter = str ''###END_OF_HIDDEN_DATA###''"

definition no_hidden_text :: pystr where
  "no_hidden_text = str ''No hidden text found or delimiter not detected''"

text \<open>\<open>[int(bit) for bit in binary_data]\<close>, stopping at the first character that raises.\<close>

fun int_bits :: "pystr \<Rightarrow> py_error + nat list" where
  "int_bits [] = Inr []"
| "int_bits (c # binary_data) =
     (case int_digit c of
        Inl e \<Rightarrow> Inl e
      | Inr b \<Rightarrow> (case int_bits binary_data of Inl e \<Rightarrow> Inl e | Inr bs \<Rightarrow> Inr (b # bs)))"

text \<open>\<open>flat_img[:data_length] = (flat_img[:data_length] & 0xFE) | binary_array\<close>.\<close>

definition write_lsb :: "sample list \<Rightarrow> nat \<Rightarrow> nat list \<Rightarrow> sample list" where
  "write_lsb flat_img data_length binary_array =
     map2 (\<lambda>s b. (s AND 0xFE) OR of_nat b) (take data_length flat_img) binary_array
       @ drop data_length flat_img"

text \<open>
  The embedding step of \<open>hide_text_in_image\<close>: \<open>encoded_img\<close> is a copy of \<open>img\<close>,
  \<open>binary_array\<close> is built from the characters of \<open>binary_data\<close>, and the copy is written
  through its flat view. The array \<open>img\<close> itself is never written. When the slice
  \<open>flat_img[:data_length]\<close> is shorter than \<open>binary_array\<close>, numpy cannot broadcast the
  two and raises \<open>ValueError\<close>, except for an empty slice and a single bit, where it
  writes nothing.
\<close>

definition embed_lsb :: "sample list \<Rightarrow> pystr \<Rightarrow> py_error + sample list" where
  "embed_lsb img binary_data =
     (case int_bits binary_data of
        Inl e \<Rightarrow> Inl e
      | Inr binary_array \<Rightarrow>
          if length binary_data \<le> length img \<or> (length binary_data = 1 \<and> img = [])
          then Inr (write_lsb img (length binary_data) binary_array)
          else Inl ValueError)"

definition hide_text_in_image :: "sample list \<Rightarrow> pystr \<Rightarrow> hide_outcome" where
  "hide_text_in_image img text_to_hide =
     (let text_with_delimiter = text_to_hide @ delimiter;
          binary_data = string_to_binary text_with_delimiter;
          data_length = length binary_data;
          total_pixels = length img
      in if data_length > total_pixels then
           \<lparr>returned = False, report = Image_too_small data_length total_pixels,
            carrier = img, saved = None\<rparr>
         else
           (case embed_lsb img binary_data of
              Inl e \<Rightarrow> \<lparr>returned = False, report = Error_hiding e, carrier = img, saved = None\<rparr>
            | Inr encoded_img \<Rightarrow>
                \<lparr>returned = True, report = Text_hidden (length text_to_hide), carrier = img,
                 saved = Some encoded_img\<rparr>))"

text \<open>\<open>''.join(str(pixel & 1) for pixel in img.ravel())\<close>.\<close>

definition lsb_string :: "sample list \<Rightarrow> pystr" where
  "lsb_string img = concat (map (\<lambda>pixel. str_nat (unat (pixel AND 1))) img)"

text \<open>\<open>extract_text_from_image\<close> returns a string, or \<open>None\<close> after an exception (\<open>Inl\<close>).\<close>

definition extract_text_from_image :: "sample list \<Rightarrow> py_error + pystr" where
  "extract_text_from_image img =
     (let binary_data = lsb_string img in
      case binary_to_string binary_data of
        Inl e \<Rightarrow> Inl e
      | Inr extracted_text \<Rightarrow>
          (let delimiter_pos = str_find extracted_text delimiter in
           if delimiter_pos \<noteq> - 1 then Inr (take (nat delimiter_pos) extracted_text)
           else Inr no_hidden_text))"

section \<open>Hiding and extracting: \<open>RGBImageSteganography\<close> (sdfbhzdf.py)\<close>

definition rgb_delimiter :: pystr where
  "rgb_delimiter = str ''###END###''"

definition no_hidden_message :: pystr where
  "no_hidden_message = str ''No hidden message found.''"

text \<open>
  The loop \<open>for i in range(len(binary_text)): flat_pixels[i] = (flat_pixels[i] & 0xFE) |
  int(binary_text[i])\<close> writes into the loaded array itself. An index beyond the array or
  a character that is no digit raises, and leaves the array as written so far.
\<close>

function rgb_hide_loop :: "pystr \<Rightarrow> nat \<Rightarrow> sample list \<Rightarrow> sample list \<times> py_error option" where
  "rgb_hide_loop binary_text i flat_pixels =
     (if i < length binary_text then
        (if i < length flat_pixels then
           (case int_digit (binary_text ! i) of
              Inl e \<Rightarrow> (flat_pixels, Some e)
            | Inr b \<Rightarrow>
                rgb_hide_loop binary_text (i + 1)
                  (flat_pixels[i := (flat_pixels ! i AND 0xFE) OR of_nat b]))
         else (flat_pixels, Some IndexError))
      else (flat_pixels, None))"
  by pat_completeness auto
termination
  by (relation "measure (\<lambda>(binary_text, i, flat_pixels). length binary_text - i)") auto

declare rgb_hide_loop.simps [simp del]

text \<open>\<open>max_bits = width * height * 3\<close> is the number of samples of the array of an image
  converted to RGB. The diagnostic is the message handed to \<open>_log\<close>, which prints it
  when \<open>verbose\<close> is set, as it is by default.\<close>

definition rgb_hide_text_in_image :: "sample list \<Rightarrow> pystr \<Rightarrow> hide_outcome" where
  "rgb_hide_text_in_image pixels txt =
     (let delimited_text = txt @ rgb_delimiter;
          binary_text = concat (map (\<lambda>char. format_08b char) delimited_text);
          max_bits = length pixels
      in if length binary_text > max_bits then
           \<lparr>returned = False, report = Message_too_long (length binary_text) max_bits,
            carrier = pixels, saved = None\<rparr>
         else
           (case rgb_hide_loop binary_text 0 pixels of
              (flat_pixels, Some e) \<Rightarrow>
                \<lparr>returned = False, report = Error_hiding e, carrier = flat_pixels, saved = None\<rparr>
            | (flat_pixels, None) \<Rightarrow>
                \<lparr>returned = True, report = Text_hidden (length txt), carrier = flat_pixels,
                 saved = Some flat_pixels\<rparr>))"

text \<open>
  The scan of \<open>extract_text_from_image\<close>: at every index \<open>i\<close> of \<open>range(0, len(binary_data),
  8)\<close> it stops if the bits from \<open>i\<close> on start with \<open>delimiter_bits\<close>, and otherwise appends
  the character of \<open>binary_data[i:i+8]\<close> to \<open>message\<close>. The last slice may be shorter
  than 8 bits.
\<close>

function rgb_extract_loop :: "pystr \<Rightarrow> pystr \<Rightarrow> nat \<Rightarrow> pystr \<Rightarrow> py_error + pystr" where
  "rgb_extract_loop binary_data delimiter_bits i message =
     (if i < length binary_data then
        (let byte = take 8 (drop i binary_data) in
         if i + length delimiter_bits \<le> length binary_data
            \<and> take (length delimiter_bits) (drop i binary_data) = delimiter_bits
         then Inr message
         else
           (case int_base2 byte of
              Inl e \<Rightarrow> Inl e
            | Inr char_code \<Rightarrow>
               (case py_chr char_code of
                  Inl e \<Rightarrow> Inl e
                | Inr c \<Rightarrow> rgb_extract_loop binary_data delimiter_bits (i + 8) (message @ [c]))))
      else Inr message)"
  by pat_completeness auto
termination
  by (relation "measure (\<lambda>(binary_data, delimiter_bits, i, message). length binary_data - i)")
    auto

declare rgb_extract_loop.simps [simp del]

text \<open>\<open>extract_text_from_image\<close> returns the message, or the string \<open>No hidden message
  found.\<close> when the message is empty; after an exception it returns a string that
  starts with \<open>Error extracting text:\<close> (\<open>Inl\<close>).\<close>

definition rgb_extract_text_from_image :: "sample list \<Rightarrow> py_error + pystr" where
  "rgb_extract_text_from_image pixels =
     (let binary_data = lsb_string pixels;
          delimiter_bits = concat (map (\<lambda>c. format_08b c) rgb_delimiter)
      in case rgb_extract_loop binary_data delimiter_bits 0 [] of
           Inl e \<Rightarrow> Inl e
         | Inr message \<Rightarrow> if message \<noteq> [] then Inr message else Inr no_hidden_message)"

section \<open>Notions used in the statements\<close>

text \<open>A bit string: every character is the digit \<open>0\<close> or the digit \<open>1\<close>.\<close>

definition bits_only :: "pystr \<Rightarrow> bool" where
  "bits_only s = list_all (\<lambda>c. c = 48 \<or> c = 49) s"

text \<open>The number that a bit string denotes, most significant bit first.\<close>

definition bin_value :: "pystr \<Rightarrow> nat" where
  "bin_value s = foldl (\<lambda>a c. 2 * a + (c - 48)) 0 s"

text \<open>The delimiter \<open>d\<close> occurs in \<open>a + d\<close> at no index before the end of \<open>a\<close>: it is not
  inside \<open>a\<close>, and no end of \<open>a\<close> together with a start of \<open>d\<close> spells it.\<close>

definition no_early_match :: "pystr \<Rightarrow> pystr \<Rightarrow> bool" where
  "no_early_match a d = list_all (\<lambda>j. \<not> prefix d (drop j (a @ d))) [0..<length a]"

text \<open>The 8-bit unsigned binary representation of a code point, most significant bit
  first, as the specification words it.\<close>

definition msb_first_8 :: "nat \<Rightarrow> pystr" where
  "msb_first_8 c = map (\<lambda>j. 48 + c div 2 ^ (7 - j) mod 2) [0..<8]"

section \<open>Digits and bit strings\<close>

lemma bits_only_simps [simp]:
  "bits_only []"
  "bits_only (c # s) \<longleftrightarrow> (c = 48 \<or> c = 49) \<and> bits_only s"
  "bits_only (s @ t) \<longleftrightarrow> bits_only s \<and> bits_only t"
  by (auto simp: bits_only_def)

lemma bits_only_replicate [simp]: "bits_only (replicate k 48)"
  by (simp add: bits_only_def list_all_iff)

lemma bits_only_take: "bits_only s \<Longrightarrow> bits_only (take n s)"
  by (auto simp: bits_only_def list_all_iff dest: in_set_takeD)

lemma bits_only_drop: "bits_only s \<Longrightarrow> bits_only (drop n s)"
  by (auto simp: bits_only_def list_all_iff dest: in_set_dropD)

lemma bits_only_concat: "(\<And>x. x \<in> set xss \<Longrightarrow> bits_only x) \<Longrightarrow> bits_only (concat xss)"
  by (induction xss) auto

lemma bits_only_bin_digits: "bits_only (bin_digits n)"
proof (induction n rule: bin_digits.induct)
  case (1 n)
  show ?case
  proof (cases "n < 2")
    case True
    then have "n = 0 \<or> n = 1" by arith
    then show ?thesis by (auto simp: bin_digits.simps [of n])
  next
    case False
    have "n mod 2 = 0 \<or> n mod 2 = 1" by arith
    with False 1 show ?thesis by (auto simp: bin_digits.simps [of n])
  qed
qed

lemma bin_digits_nonempty: "bin_digits n \<noteq> []"
  by (subst bin_digits.simps) simp

lemma bin_value_snoc: "bin_value (s @ [c]) = 2 * bin_value s + (c - 48)"
  by (simp add: bin_value_def)

lemma bin_value_zeros: "bin_value (replicate k 48 @ s) = bin_value s"
  by (induction k) (simp_all add: bin_value_def)

lemma bin_value_bin_digits: "bin_value (bin_digits n) = n"
proof (induction n rule: bin_digits.induct)
  case (1 n)
  show ?case
  proof (cases "n < 2")
    case True
    then show ?thesis by (simp add: bin_digits.simps [of n] bin_value_def)
  next
    case False
    with 1 show ?thesis by (simp add: bin_digits.simps [of n] bin_value_snoc)
  qed
qed

lemma length_bin_digits_le: "0 < k \<Longrightarrow> n < 2 ^ k \<Longrightarrow> length (bin_digits n) \<le> k"
proof (induction n arbitrary: k rule: bin_digits.induct)
  case (1 n)
  show ?case
  proof (cases "n < 2")
    case True
    with 1 show ?thesis by (simp add: bin_digits.simps [of n])
  next
    case False
    have "k \<noteq> 0" "k \<noteq> 1" using False "1.prems" by auto
    then obtain k' where k: "k = Suc k'" "0 < k'" by (cases k) auto
    with "1.prems" have "n div 2 < 2 ^ k'" by auto
    with "1.IH" [OF False \<open>0 < k'\<close>] False k show ?thesis by (simp add: bin_digits.simps [of n])
  qed
qed

lemma length_bin_digits_gt: "2 ^ k \<le> n \<Longrightarrow> k < length (bin_digits n)"
proof (induction n arbitrary: k rule: bin_digits.induct)
  case (1 n)
  show ?case
  proof (cases "n < 2")
    case True
    have "k = 0"
    proof (rule ccontr)
      assume "k \<noteq> 0"
      then have "(2::nat) ^ 1 \<le> 2 ^ k" by (intro power_increasing) auto
      with True "1.prems" show False by simp
    qed
    then show ?thesis by (simp add: bin_digits.simps [of n])
  next
    case False
    show ?thesis
    proof (cases k)
      case 0
      then show ?thesis using bin_digits_nonempty [of n] by simp
    next
      case (Suc k')
      with "1.prems" have "2 ^ k' \<le> n div 2" by auto
      with "1.IH" [OF False] False Suc show ?thesis by (simp add: bin_digits.simps [of n])
    qed
  qed
qed

lemma length_format_08b: "n < 256 \<Longrightarrow> length (format_08b n) = 8"
  using length_bin_digits_le [of 8 n] by (simp add: format_08b_def)

lemma format_08b_wide: "256 \<le> n \<Longrightarrow> format_08b n = bin_digits n \<and> 8 < length (format_08b n)"
  using length_bin_digits_gt [of 8 n] by (simp add: format_08b_def)

lemma bits_only_format_08b: "bits_only (format_08b n)"
  by (simp add: format_08b_def bits_only_bin_digits)

lemma bin_value_format_08b: "bin_value (format_08b n) = n"
  by (simp add: format_08b_def bin_value_zeros bin_value_bin_digits)

lemma bits_only_string_to_binary: "bits_only (string_to_binary txt)"
  unfolding string_to_binary_def by (rule bits_only_concat) (auto simp: bits_only_format_08b)

lemma int_base2_bits: "bits_only s \<Longrightarrow> s \<noteq> [] \<Longrightarrow> int_base2 s = Inr (bin_value s)"
  by (simp add: int_base2_def bits_only_def bin_value_def)

lemma bin_value_less: "bits_only s \<Longrightarrow> bin_value s < 2 ^ length s"
proof (induction s rule: rev_induct)
  case Nil
  then show ?case by (simp add: bin_value_def)
next
  case (snoc c s)
  then have "bin_value s < 2 ^ length s" and "c - 48 \<le> 1" by auto
  then show ?case by (simp add: bin_value_snoc)
qed

section \<open>Encoding in blocks of 8 bits\<close>

lemma length_string_to_binary:
  "\<forall>c\<in>set msg. c \<le> 255 \<Longrightarrow> length (string_to_binary msg) = 8 * length msg"
  by (induction msg) (simp_all add: string_to_binary_def length_format_08b)

lemma string_to_binary_append:
  "string_to_binary (s @ t) = string_to_binary s @ string_to_binary t"
  by (simp add: string_to_binary_def)

lemma string_to_binary_slice:
  assumes "\<forall>c\<in>set msg. c \<le> 255" and "k + m \<le> length msg"
  shows "take (8 * m) (drop (8 * k) (string_to_binary msg @ rest))
           = string_to_binary (take m (drop k msg))"
proof -
  have split: "msg = take k msg @ take m (drop k msg) @ drop (k + m) msg"
    by (metis append_take_drop_id drop_drop add.commute)
  have small: "\<forall>c\<in>set (take k msg). c \<le> 255" "\<forall>c\<in>set (take m (drop k msg)). c \<le> 255"
    using assms(1) by (auto dest!: in_set_takeD in_set_dropD)
  have l1: "length (string_to_binary (take k msg)) = 8 * k"
    using assms(2) by (simp add: length_string_to_binary [OF small(1)])
  have l2: "length (string_to_binary (take m (drop k msg))) = 8 * m"
    using assms(2) by (simp add: length_string_to_binary [OF small(2)])
  have "string_to_binary msg @ rest =
          string_to_binary (take k msg) @ string_to_binary (take m (drop k msg))
            @ (string_to_binary (drop (k + m) msg) @ rest)"
    by (subst split) (simp only: string_to_binary_append append_assoc)
  then show ?thesis using l1 l2 by simp
qed

lemma string_to_binary_byte:
  assumes "\<forall>c\<in>set msg. c \<le> 255" and "k < length msg"
  shows "take 8 (drop (8 * k) (string_to_binary msg @ rest)) = format_08b (msg ! k)"
proof -
  have "take (8 * 1) (drop (8 * k) (string_to_binary msg @ rest))
          = string_to_binary (take 1 (drop k msg))"
    using assms by (intro string_to_binary_slice) auto
  moreover have "take 1 (drop k msg) = [msg ! k]"
    using assms(2) by (simp add: take_Suc_conv_app_nth [where i = 0] flip: Cons_nth_drop_Suc)
  ultimately show ?thesis by (simp add: string_to_binary_def)
qed

section \<open>Decoding\<close>

lemma binary_to_string_loop_step:
  assumes "i < length binary" and "int_base2 (take 8 (drop i binary)) = Inr n"
    and "py_chr n = Inr c"
  shows "binary_to_string_loop binary i chars = binary_to_string_loop binary (i + 8) (chars @ [c])"
  by (subst binary_to_string_loop.simps) (simp add: assms)

lemma binary_to_string_loop_stop:
  "\<not> i < length binary \<Longrightarrow> binary_to_string_loop binary i chars = Inr chars"
  by (subst binary_to_string_loop.simps) simp

lemma byte_value_chr:
  assumes "bits_only binary" and "i < length binary"
  shows "int_base2 (take 8 (drop i binary)) = Inr (bin_value (take 8 (drop i binary)))"
    and "py_chr (bin_value (take 8 (drop i binary))) = Inr (bin_value (take 8 (drop i binary)))"
proof -
  let ?byte = "take 8 (drop i binary)"
  have b: "bits_only ?byte" "?byte \<noteq> []"
    using assms by (auto intro: bits_only_take bits_only_drop)
  then show "int_base2 ?byte = Inr (bin_value ?byte)"
    by (rule int_base2_bits)
  have "bin_value ?byte < 2 ^ length ?byte"
    using b(1) by (rule bin_value_less)
  also have "\<dots> \<le> 2 ^ 8" by (intro power_increasing) auto
  finally show "py_chr (bin_value ?byte) = Inr (bin_value ?byte)"
    by (simp add: py_chr_def)
qed


lemma binary_to_string_loop_bits:
  assumes "bits_only binary"
  shows "binary_to_string_loop binary i chars =
           Inr (chars @ map (\<lambda>k. bin_value (take 8 (drop (i + 8 * k) binary)))
                          [0..<(length binary - i + 7) div 8])"
  using assms
proof (induction binary i chars rule: binary_to_string_loop.induct)
  case (1 binary i chars)
  show ?case
  proof (cases "i < length binary")
    case False
    then have "(length binary - i + 7) div 8 = 0" by simp
    with False show ?thesis by (simp add: binary_to_string_loop_stop)
  next
    case True
    let ?byte = "take 8 (drop i binary)"
    let ?m = "(length binary - (i + 8) + 7) div 8"
    note v = byte_value_chr [OF "1.prems" True]
    have n: "(length binary - i + 7) div 8 = Suc ?m"
    proof (cases "length binary - i < 8")
      case short: True
      then have "?m = 0" by simp
      moreover have "(length binary - i + 7) div 8 = 1"
        using short True by (intro div_nat_eqI) auto
      ultimately show ?thesis by simp
    next
      case False
      then have "length binary - i + 7 = (length binary - (i + 8) + 7) + 8" by simp
      then show ?thesis by (simp only: div_add_self2)
    qed
    have "binary_to_string_loop binary i chars =
            binary_to_string_loop binary (i + 8) (chars @ [bin_value ?byte])"
      using True v by (rule binary_to_string_loop_step)
    also have "\<dots> = Inr ((chars @ [bin_value ?byte])
                       @ map (\<lambda>k. bin_value (take 8 (drop (i + 8 + 8 * k) binary))) [0..<?m])"
      using "1.IH" [OF True v] "1.prems" by blast
    also have "(chars @ [bin_value ?byte])
                 @ map (\<lambda>k. bin_value (take 8 (drop (i + 8 + 8 * k) binary))) [0..<?m]
               = chars @ map (\<lambda>k. bin_value (take 8 (drop (i + 8 * k) binary))) [0..<Suc ?m]"
      by (simp add: map_upt_Suc add.assoc del: upt_Suc)
    finally show ?thesis
      by (simp only: n)
  qed
qed


lemma binary_to_string_bits:
  assumes "bits_only binary"
  shows "binary_to_string binary =
           Inr (map (\<lambda>k. bin_value (take 8 (drop (8 * k) binary))) [0..<length binary div 8])"
proof -
  let ?n = "length binary - length binary mod 8"
  have n: "?n = 8 * (length binary div 8)" by arith
  have len: "length (take ?n binary) = 8 * (length binary div 8)"
    by (simp add: n)
  have "binary_to_string binary = binary_to_string_loop (take ?n binary) 0 []"
    by (simp add: binary_to_string_def)
  also have "\<dots> = Inr (map (\<lambda>k. bin_value (take 8 (drop (8 * k) (take ?n binary))))
                 [0..<(length (take ?n binary) - 0 + 7) div 8])"
    using binary_to_string_loop_bits [OF bits_only_take [OF assms, of ?n], of 0 "[]"]
    by simp
  also have "(length (take ?n binary) - 0 + 7) div 8 = length binary div 8"
    unfolding len by simp
  also have "map (\<lambda>k. bin_value (take 8 (drop (8 * k) (take ?n binary)))) [0..<length binary div 8]
           = map (\<lambda>k. bin_value (take 8 (drop (8 * k) binary))) [0..<length binary div 8]"
  proof (rule map_cong [OF refl])
    fix k assume "k \<in> set [0..<length binary div 8]"
    then have "8 * k + 8 \<le> ?n" by (simp add: n)
    then show "bin_value (take 8 (drop (8 * k) (take ?n binary)))
                 = bin_value (take 8 (drop (8 * k) binary))"
      by (simp add: drop_take)
  qed
  finally show ?thesis .
qed

lemma bin_value_sum:
  "bin_value s = (\<Sum>j<length s. (s ! j - 48) * 2 ^ (length s - 1 - j))"
proof (induction s rule: rev_induct)
  case Nil
  show ?case by (simp add: bin_value_def)
next
  case (snoc c s)
  have "(\<Sum>j<length s. ((s @ [c]) ! j - 48) * 2 ^ (length s - j))
          = (\<Sum>j<length s. 2 * ((s ! j - 48) * 2 ^ (length s - 1 - j)))"
  proof (rule sum.cong [OF refl])
    fix j assume "j \<in> {..<length s}"
    then have j: "j < length s" by simp
    then have "(2::nat) ^ (length s - j) = 2 * 2 ^ (length s - 1 - j)"
      by (metis Suc_diff_Suc diff_Suc_eq_diff_pred diff_commute power_Suc)
    with j show "((s @ [c]) ! j - 48) * 2 ^ (length s - j)
                   = 2 * ((s ! j - 48) * 2 ^ (length s - 1 - j))"
      by (simp add: nth_append)
  qed
  also have "\<dots> = 2 * bin_value s"
    by (simp add: snoc.IH sum_distrib_left)
  finally show ?case
    by (simp add: bin_value_snoc)
qed

lemma decoded_bytes:
  assumes "\<forall>c\<in>set msg. c \<le> 255"
  shows "map (\<lambda>k. bin_value (take 8 (drop (8 * k) (string_to_binary msg @ rest))))
           [0..<length msg] = msg"
    (is "map ?f _ = _")
proof (rule nth_equalityI)
  show "length (map ?f [0..<length msg]) = length msg" by simp
next
  fix k assume "k < length (map ?f [0..<length msg])"
  then have k: "k < length msg" by simp
  have "?f k = msg ! k"
    by (simp only: string_to_binary_byte [OF assms k] bin_value_format_08b)
  with k show "map ?f [0..<length msg] ! k = msg ! k"
    by (simp del: drop_append take_append)
qed

lemma decoded_prefix:
  assumes small: "\<forall>c\<in>set msg. c \<le> 255" and rest: "bits_only rest"
  shows "\<exists>g. binary_to_string (string_to_binary msg @ rest) = Inr (msg @ g)"
proof -
  let ?b = "string_to_binary msg @ rest"
  let ?f = "\<lambda>k. bin_value (take 8 (drop (8 * k) ?b))"
  have bits: "bits_only ?b"
    using rest by (simp add: bits_only_string_to_binary)
  have len: "length ?b div 8 = length msg + length rest div 8"
    by (simp add: length_string_to_binary [OF small])
  have "map ?f [0..<length msg + length rest div 8]
               = msg @ map ?f [length msg..<length msg + length rest div 8]"
    using decoded_bytes [OF small, of rest]
    by (simp only: upt_add_eq_append [OF le0] map_append add_0)
  then have "binary_to_string ?b = Inr (msg @ map ?f [length msg..<length msg + length rest div 8])"
    by (simp only: binary_to_string_bits [OF bits] len)
  then show ?thesis ..
qed

lemma string_to_binary_inject:
  assumes "\<forall>c\<in>set x. c \<le> 255" and "\<forall>c\<in>set y. c \<le> 255"
    and "string_to_binary x = string_to_binary y"
  shows "x = y"
proof -
  have "8 * length x = 8 * length y"
    using assms by (metis length_string_to_binary)
  then have "length x = length y" by simp
  then show ?thesis
    using decoded_bytes [OF assms(1), of "[]"] decoded_bytes [OF assms(2), of "[]"] assms(3)
    by simp
qed

text \<open>
  C10 (implicit codec round trip). For every string whose characters all have code points
  at most 255, \<open>binary_to_string\<close> returns, without raising, the string that
  \<open>string_to_binary\<close> was given.
\<close>

theorem codec_roundtrip:
  assumes "\<forall>c\<in>set msg. c \<le> 255"
  shows "binary_to_string (string_to_binary msg) = Inr msg"
  using decoded_bytes [OF assms, of "[]"]
  by (simp add: binary_to_string_bits [OF bits_only_string_to_binary]
      length_string_to_binary [OF assms])

theorem codec_roundtrip_witness:
  "list_all (\<lambda>c. c \<le> 255) (str ''Hi!'')
   \<and> binary_to_string (string_to_binary (str ''Hi!'')) = Inr (str ''Hi!'')"
  using codec_roundtrip [of "str ''Hi!''"] by (simp add: str_def)

text \<open>
  C9 (decode totality). On every string of binary digits \<open>binary_to_string\<close> returns
  without raising; the result has \<open>len(binary) div 8\<close> characters, a trailing group of
  fewer than 8 bits is dropped, and the \<open>k\<close>-th character is the number that the bits
  \<open>8k .. 8k+7\<close> denote, most significant bit first. Nothing about the content is checked.
\<close>

theorem decode_total:
  assumes "bits_only binary"
  shows "\<exists>t. binary_to_string binary = Inr t
           \<and> length t = length binary div 8
           \<and> (\<forall>k<length t. t ! k = (\<Sum>j<8. (binary ! (8 * k + j) - 48) * 2 ^ (7 - j)))
           \<and> binary_to_string (take (8 * (length binary div 8)) binary) = Inr t"
proof -
  let ?f = "\<lambda>b k. bin_value (take 8 (drop (8 * k) b))"
  let ?t = "map (?f binary) [0..<length binary div 8]"
  let ?whole = "take (8 * (length binary div 8)) binary"
  have t: "binary_to_string binary = Inr ?t"
    by (rule binary_to_string_bits [OF assms])
  have nth: "?t ! k = (\<Sum>j<8. (binary ! (8 * k + j) - 48) * 2 ^ (7 - j))"
    if "k < length binary div 8" for k
  proof -
    let ?byte = "take 8 (drop (8 * k) binary)"
    have fits: "8 * k + 8 \<le> length binary" using that by simp
    then have l: "length ?byte = 8" by simp
    have "bin_value ?byte = (\<Sum>j<8. (?byte ! j - 48) * 2 ^ (7 - j))"
      using bin_value_sum [of ?byte] by (simp only: l) simp
    also have "\<dots> = (\<Sum>j<8. (binary ! (8 * k + j) - 48) * 2 ^ (7 - j))"
      using fits by (intro sum.cong refl) simp
    finally show ?thesis using that by simp
  qed
  have "binary_to_string ?whole = Inr (map (?f ?whole) [0..<length ?whole div 8])"
    by (rule binary_to_string_bits [OF bits_only_take [OF assms]])
  moreover have "length ?whole div 8 = length binary div 8"
    by simp
  moreover have "map (?f ?whole) [0..<length binary div 8] = ?t"
  proof (rule map_cong [OF refl])
    fix k assume "k \<in> set [0..<length binary div 8]"
    then have "8 * k + 8 \<le> 8 * (length binary div 8)" by simp
    then show "?f ?whole k = ?f binary k" by (simp add: drop_take)
  qed
  ultimately have "binary_to_string ?whole = Inr ?t" by simp
  with t nth show ?thesis by simp
qed

theorem decode_total_witness:
  "bits_only (str ''0100100001'') \<and> binary_to_string (str ''0100100001'') = Inr (str ''H'')"
proof -
  have b: "bits_only (str ''0100100001'')" by (simp add: str_def)
  from decode_total [OF b] obtain t where t: "binary_to_string (str ''0100100001'') = Inr t"
    and l: "length t = length (str ''0100100001'') div 8"
    and v: "\<forall>k<length t. t ! k = (\<Sum>j<8. (str ''0100100001'' ! (8 * k + j) - 48) * 2 ^ (7 - j))"
    by blast
  from l have l1: "length t = 1" by (simp add: str_def)
  with v have "t ! 0 = (\<Sum>j<8. (str ''0100100001'' ! (8 * 0 + j) - 48) * 2 ^ (7 - j))"
    by simp
  also have "\<dots> = 72"
    by (simp add: str_def eval_nat_numeral lessThan_Suc)
  finally have "t = [72]"
    using l1 by (cases t) auto
  with t b show ?thesis by (simp add: str_def)
qed

section \<open>Writing the low-order bits\<close>

lemma int_digit_bit: "c = 48 \<or> c = 49 \<Longrightarrow> int_digit c = Inr (c - 48)"
  by (auto simp: int_digit_def)

lemma int_bits_bits: "bits_only s \<Longrightarrow> int_bits s = Inr (map (\<lambda>c. c - 48) s)"
  by (induction s) (auto simp: int_digit_bit)

lemma lsb_cases: "(w :: sample) AND 1 = 0 \<or> w AND 1 = 1"
  by (metis and_one_eq even_iff_mod_2_eq_zero odd_iff_mod_2_eq_one)

lemma high_bits_even: "((w :: sample) AND 0xFE) AND 1 = 0"
proof -
  have "(w AND 0xFE) AND 1 = w AND (0xFE AND 1)" by (simp only: and.assoc)
  also have "(0xFE :: sample) AND 1 = 0" by simp
  finally show ?thesis by simp
qed

lemma written_lsb:
  assumes "b = 0 \<or> b = 1"
  shows "(((w :: sample) AND 0xFE) OR of_nat b) AND 1 = of_nat b"
proof -
  have "((w AND 0xFE) OR of_nat b) AND 1 = ((w AND 0xFE) AND 1) OR (of_nat b AND 1)"
    by (simp only: bit.conj_disj_distrib2)
  also have "\<dots> = of_nat b AND 1" by (simp only: high_bits_even) simp
  also have "\<dots> = of_nat b" using assms by auto
  finally show ?thesis .
qed

lemma written_high_bits:
  assumes "b = 0 \<or> b = 1"
  shows "(((w :: sample) AND 0xFE) OR of_nat b) AND 0xFE = w AND 0xFE"
proof -
  have "((w AND 0xFE) OR of_nat b) AND 0xFE = ((w AND 0xFE) AND 0xFE) OR (of_nat b AND 0xFE)"
    by (simp only: bit.conj_disj_distrib2)
  also have "(w AND 0xFE) AND 0xFE = w AND 0xFE" by (simp add: and.assoc)
  also have "(of_nat b :: sample) AND 0xFE = 0" using assms by auto
  finally show ?thesis by simp
qed

lemma length_write_lsb:
  "length bs = n \<Longrightarrow> n \<le> length img \<Longrightarrow> length (write_lsb img n bs) = length img"
  by (simp add: write_lsb_def)

lemma nth_write_lsb:
  assumes "length bs = n" and "n \<le> length img" and "i < length img"
  shows "write_lsb img n bs ! i = (if i < n then (img ! i AND 0xFE) OR of_nat (bs ! i) else img ! i)"
  using assms by (simp add: write_lsb_def nth_append)


lemma bits_only_nth: "bits_only s \<Longrightarrow> i < length s \<Longrightarrow> s ! i = 48 \<or> s ! i = 49"
  by (simp add: bits_only_def list_all_length)

lemma rgb_hide_loop_step:
  assumes "i < length binary_text" and "i < length flat_pixels"
    and "int_digit (binary_text ! i) = Inr b"
  shows "rgb_hide_loop binary_text i flat_pixels =
           rgb_hide_loop binary_text (i + 1)
             (flat_pixels[i := (flat_pixels ! i AND 0xFE) OR of_nat b])"
  by (subst rgb_hide_loop.simps) (simp add: assms)

lemma rgb_hide_loop_stop:
  "\<not> i < length binary_text \<Longrightarrow> rgb_hide_loop binary_text i flat_pixels = (flat_pixels, None)"
  by (subst rgb_hide_loop.simps) simp

lemma rgb_hide_loop_bits:
  assumes "bits_only binary_text" and "length binary_text \<le> length flat_pixels"
  shows "\<exists>out. rgb_hide_loop binary_text i flat_pixels = (out, None)
           \<and> length out = length flat_pixels
           \<and> (\<forall>j<length flat_pixels. out ! j =
                 (if i \<le> j \<and> j < length binary_text
                  then (flat_pixels ! j AND 0xFE) OR of_nat (binary_text ! j - 48)
                  else flat_pixels ! j))"
  using assms
proof (induction binary_text i flat_pixels rule: rgb_hide_loop.induct)
  case (1 binary_text i flat_pixels)
  show ?case
  proof (cases "i < length binary_text")
    case False
    then show ?thesis by (auto simp: rgb_hide_loop_stop)
  next
    case True
    let ?v = "(flat_pixels ! i AND 0xFE) OR of_nat (binary_text ! i - 48)"
    let ?px = "flat_pixels[i := ?v]"
    have inside: "i < length flat_pixels" using True "1.prems" by simp
    have digit: "int_digit (binary_text ! i) = Inr (binary_text ! i - 48)"
      using bits_only_nth [OF "1.prems"(1) True] by (rule int_digit_bit)
    have step: "rgb_hide_loop binary_text i flat_pixels = rgb_hide_loop binary_text (i + 1) ?px"
      using True inside digit by (rule rgb_hide_loop_step)
    from "1.IH" [OF True inside digit] "1.prems"
    obtain out where out: "rgb_hide_loop binary_text (i + 1) ?px = (out, None)"
      and len: "length out = length ?px"
      and nth: "\<forall>j<length ?px. out ! j =
                 (if i + 1 \<le> j \<and> j < length binary_text
                  then (?px ! j AND 0xFE) OR of_nat (binary_text ! j - 48)
                  else ?px ! j)"
      by auto
    have "out ! j = (if i \<le> j \<and> j < length binary_text
                     then (flat_pixels ! j AND 0xFE) OR of_nat (binary_text ! j - 48)
                     else flat_pixels ! j)"
      if "j < length flat_pixels" for j
    proof (cases "j = i")
      case True
      with nth inside \<open>i < length binary_text\<close> show ?thesis by simp
    next
      case False
      with nth that show ?thesis by (auto simp: nth_list_update)
    qed
    with step out len show ?thesis by simp
  qed
qed

lemma rgb_hide_loop_write_lsb:
  assumes "bits_only binary_text" and "length binary_text \<le> length flat_pixels"
  shows "rgb_hide_loop binary_text 0 flat_pixels =
           (write_lsb flat_pixels (length binary_text) (map (\<lambda>c. c - 48) binary_text), None)"
proof -
  let ?w = "write_lsb flat_pixels (length binary_text) (map (\<lambda>c. c - 48) binary_text)"
  from rgb_hide_loop_bits [OF assms, of 0]
  obtain out where out: "rgb_hide_loop binary_text 0 flat_pixels = (out, None)"
    and len: "length out = length flat_pixels"
    and nth: "\<forall>j<length flat_pixels. out ! j =
                (if j < length binary_text
                 then (flat_pixels ! j AND 0xFE) OR of_nat (binary_text ! j - 48)
                 else flat_pixels ! j)"
    by auto
  have "out = ?w"
  proof (rule nth_equalityI)
    show "length out = length ?w"
      using len assms(2) by (simp add: length_write_lsb)
  next
    fix j assume "j < length out"
    then have j: "j < length flat_pixels" using len by simp
    then show "out ! j = ?w ! j"
      using nth assms(2) by (simp add: nth_write_lsb)
  qed
  with out show ?thesis by simp
qed

lemma str_nat_digit: "n < 10 \<Longrightarrow> str_nat n = [48 + n]"
  by (subst str_nat.simps) simp

lemma lsb_string_map: "lsb_string img = map (\<lambda>pixel. 48 + unat (pixel AND 1)) img"
proof -
  have "str_nat (unat (pixel AND 1)) = [48 + unat (pixel AND 1)]" for pixel :: sample
    using lsb_cases [of pixel] by (auto simp: str_nat_digit)
  then show ?thesis
    by (induction img) (simp_all add: lsb_string_def)
qed

lemma bits_only_lsb_string: "bits_only (lsb_string img)"
proof -
  have "48 + unat (pixel AND 1) = 48 \<or> 48 + unat (pixel AND 1) = 49" for pixel :: sample
    using lsb_cases [of pixel] by auto
  then show ?thesis
    by (simp add: lsb_string_map bits_only_def list_all_iff)
qed

lemma length_lsb_string: "length (lsb_string img) = length img"
  by (simp add: lsb_string_map)

lemma lsb_string_write_lsb:
  assumes "bits_only binary_data" and "length binary_data \<le> length img"
  shows "lsb_string (write_lsb img (length binary_data) (map (\<lambda>c. c - 48) binary_data))
           = binary_data @ lsb_string (drop (length binary_data) img)"
    (is "lsb_string ?w = _")
proof (rule nth_equalityI)
  show "length (lsb_string ?w) = length (binary_data @ lsb_string (drop (length binary_data) img))"
    using assms(2) by (simp add: length_lsb_string length_write_lsb)
next
  fix i assume "i < length (lsb_string ?w)"
  then have i: "i < length img"
    using assms(2) by (simp add: length_lsb_string length_write_lsb)
  show "lsb_string ?w ! i = (binary_data @ lsb_string (drop (length binary_data) img)) ! i"
  proof (cases "i < length binary_data")
    case True
    define b where "b = binary_data ! i - 48"
    have b: "b = 0 \<or> b = 1" and c: "binary_data ! i = 48 + b"
      using bits_only_nth [OF assms(1) True] by (auto simp: b_def)
    have "?w ! i = (img ! i AND 0xFE) OR of_nat b"
      using True i assms(2) by (simp add: nth_write_lsb b_def del: of_nat_diff)
    then have "?w ! i AND 1 = of_nat b"
      by (simp only: written_lsb [OF b])
    moreover have "unat (of_nat b :: sample) = b"
      using b by auto
    ultimately have "48 + unat (?w ! i AND 1) = binary_data ! i"
      by (simp only: c)
    with True i assms(2) show ?thesis
      by (simp only: lsb_string_map nth_map length_write_lsb length_map nth_append if_True)
  next
    case False
    with i assms(2) show ?thesis
      by (simp add: lsb_string_map length_write_lsb nth_write_lsb nth_append)
  qed
qed

section \<open>Hiding a text\<close>

lemma embed_lsb_bits:
  "bits_only binary_data \<Longrightarrow> length binary_data \<le> length img \<Longrightarrow>
   embed_lsb img binary_data
     = Inr (write_lsb img (length binary_data) (map (\<lambda>c. c - 48) binary_data))"
  by (simp add: embed_lsb_def int_bits_bits)

lemma hide_text_in_image_fits:
  assumes "length (string_to_binary (msg @ delimiter)) \<le> length img"
  shows "hide_text_in_image img msg =
           \<lparr>returned = True, report = Text_hidden (length msg), carrier = img,
            saved = Some (write_lsb img (length (string_to_binary (msg @ delimiter)))
                      (map (\<lambda>c. c - 48) (string_to_binary (msg @ delimiter))))\<rparr>"
  using assms
  by (simp add: hide_text_in_image_def Let_def embed_lsb_bits [OF bits_only_string_to_binary])

lemma hide_text_in_image_too_small:
  assumes "length img < length (string_to_binary (msg @ delimiter))"
  shows "hide_text_in_image img msg =
           \<lparr>returned = False,
            report = Image_too_small (length (string_to_binary (msg @ delimiter))) (length img),
            carrier = img, saved = None\<rparr>"
  using assms by (simp add: hide_text_in_image_def Let_def)

lemma rgb_binary_text: "concat (map (\<lambda>char. format_08b char) msg) = string_to_binary msg"
  by (simp add: string_to_binary_def)

lemma rgb_hide_text_in_image_fits:
  assumes "length (string_to_binary (msg @ rgb_delimiter)) \<le> length pixels"
  shows "rgb_hide_text_in_image pixels msg =
           (let encoded = write_lsb pixels (length (string_to_binary (msg @ rgb_delimiter)))
                            (map (\<lambda>c. c - 48) (string_to_binary (msg @ rgb_delimiter)))
            in \<lparr>returned = True, report = Text_hidden (length msg), carrier = encoded,
                saved = Some encoded\<rparr>)"
  using assms
  by (simp add: rgb_hide_text_in_image_def Let_def rgb_binary_text
      rgb_hide_loop_write_lsb [OF bits_only_string_to_binary])

lemma rgb_hide_text_in_image_too_long:
  assumes "length pixels < length (string_to_binary (msg @ rgb_delimiter))"
  shows "rgb_hide_text_in_image pixels msg =
           \<lparr>returned = False,
            report = Message_too_long (length (string_to_binary (msg @ rgb_delimiter)))
                       (length pixels),
            carrier = pixels, saved = None\<rparr>"
  using assms by (simp add: rgb_hide_text_in_image_def Let_def rgb_binary_text)

text \<open>
  C2 (capacity boundary, all or nothing). The capacity of a carrier is the number of its
  samples. When the bits of the text with its delimiter are exactly as many, both
  \<open>hide_text_in_image\<close> functions return \<open>True\<close> and write an output. When they are one
  more, both return \<open>False\<close>, the diagnostic carries the required and the available
  number of bits, the loaded array is as it was and nothing is written.
\<close>

theorem capacity_boundary:
  "(length (string_to_binary (msg @ delimiter)) = length img \<longrightarrow>
      returned (hide_text_in_image img msg) \<and> saved (hide_text_in_image img msg) \<noteq> None)
   \<and> (length (string_to_binary (msg @ delimiter)) = length img + 1 \<longrightarrow>
      hide_text_in_image img msg =
        \<lparr>returned = False, report = Image_too_small (length img + 1) (length img),
         carrier = img, saved = None\<rparr>)
   \<and> (length (string_to_binary (msg @ rgb_delimiter)) = length img \<longrightarrow>
      returned (rgb_hide_text_in_image img msg)
      \<and> saved (rgb_hide_text_in_image img msg) \<noteq> None)
   \<and> (length (string_to_binary (msg @ rgb_delimiter)) = length img + 1 \<longrightarrow>
      rgb_hide_text_in_image img msg =
        \<lparr>returned = False, report = Message_too_long (length img + 1) (length img),
         carrier = img, saved = None\<rparr>)"
proof (intro conjI impI)
  assume "length (string_to_binary (msg @ delimiter)) = length img"
  then have fits: "length (string_to_binary (msg @ delimiter)) \<le> length img" by simp
  show "returned (hide_text_in_image img msg)"
    by (simp add: hide_text_in_image_fits [OF fits])
  show "saved (hide_text_in_image img msg) \<noteq> None"
    by (simp add: hide_text_in_image_fits [OF fits])
next
  assume exceed: "length (string_to_binary (msg @ delimiter)) = length img + 1"
  then have "length img < length (string_to_binary (msg @ delimiter))" by simp
  from hide_text_in_image_too_small [OF this] exceed
  show "hide_text_in_image img msg =
        \<lparr>returned = False, report = Image_too_small (length img + 1) (length img),
         carrier = img, saved = None\<rparr>"
    by simp
next
  assume "length (string_to_binary (msg @ rgb_delimiter)) = length img"
  then have fits: "length (string_to_binary (msg @ rgb_delimiter)) \<le> length img" by simp
  show "returned (rgb_hide_text_in_image img msg)"
    by (simp add: rgb_hide_text_in_image_fits [OF fits] Let_def)
  show "saved (rgb_hide_text_in_image img msg) \<noteq> None"
    by (simp add: rgb_hide_text_in_image_fits [OF fits] Let_def)
next
  assume exceed: "length (string_to_binary (msg @ rgb_delimiter)) = length img + 1"
  then have "length img < length (string_to_binary (msg @ rgb_delimiter))" by simp
  from rgb_hide_text_in_image_too_long [OF this] exceed
  show "rgb_hide_text_in_image img msg =
        \<lparr>returned = False, report = Message_too_long (length img + 1) (length img),
         carrier = img, saved = None\<rparr>"
    by simp
qed

lemma length_bin_digits_256: "length (bin_digits 256) = 9"
  by code_simp

lemma length_delimiter: "length delimiter = 24" "\<forall>c\<in>set delimiter. c \<le> 255"
  by (simp_all add: delimiter_def str_def)

lemma length_rgb_delimiter: "length rgb_delimiter = 9" "\<forall>c\<in>set rgb_delimiter. c \<le> 255"
  by (simp_all add: rgb_delimiter_def str_def)


lemma length_framed_empty:
  "length (string_to_binary ([] @ delimiter)) = 192"
  "length (string_to_binary ([] @ rgb_delimiter)) = 72"
  by (simp_all add: length_string_to_binary length_delimiter length_rgb_delimiter)

lemma length_framed_wide:
  "length (string_to_binary ([256] @ delimiter)) = 201"
  "length (string_to_binary ([256] @ rgb_delimiter)) = 81"
proof -
  have "length (format_08b 256) = 9"
    using format_08b_wide [of 256] by (simp add: length_bin_digits_256)
  then show "length (string_to_binary ([256] @ delimiter)) = 201"
    and "length (string_to_binary ([256] @ rgb_delimiter)) = 81"
    using length_framed_empty by (simp_all add: string_to_binary_def)
qed

theorem capacity_boundary_witness:
  "returned (hide_text_in_image (replicate 192 0) [])
   \<and> saved (hide_text_in_image (replicate 192 0) []) \<noteq> None
   \<and> hide_text_in_image (replicate 200 0) [256] =
        \<lparr>returned = False, report = Image_too_small 201 200,
         carrier = replicate 200 0, saved = None\<rparr>
   \<and> returned (rgb_hide_text_in_image (replicate 72 0) [])
   \<and> saved (rgb_hide_text_in_image (replicate 72 0) []) \<noteq> None
   \<and> rgb_hide_text_in_image (replicate 80 0) [256] =
        \<lparr>returned = False, report = Message_too_long 81 80,
         carrier = replicate 80 0, saved = None\<rparr>"
  using capacity_boundary [of "[]" "replicate 192 0"]
    capacity_boundary [of "[256]" "replicate 200 0"]
    capacity_boundary [of "[]" "replicate 72 0"]
    capacity_boundary [of "[256]" "replicate 80 0"]
  by (simp only: length_framed_empty length_framed_wide length_replicate) simp

text \<open>
  C3 (embedder write formula). For every string of binary digits that is not longer than
  the carrier, the embedding step of both classes succeeds with the same output, and at
  every position \<open>i\<close> of the bit string the output sample is \<open>(carrier[i] & 0xFE) | bit\<close>:
  its bits 1 to 7 are those of the carrier sample and its low-order bit is the \<open>i\<close>-th
  bit of the string.
\<close>

theorem embedder_write_formula:
  assumes "bits_only framed_bits" and "length framed_bits \<le> length carrier_samples"
    and "i < length framed_bits"
  shows "\<exists>out. embed_lsb carrier_samples framed_bits = Inr out
           \<and> rgb_hide_loop framed_bits 0 carrier_samples = (out, None)
           \<and> out ! i = (carrier_samples ! i AND 0xFE) OR of_nat (framed_bits ! i - 48)
           \<and> out ! i AND 0xFE = carrier_samples ! i AND 0xFE
           \<and> out ! i AND 1 = of_nat (framed_bits ! i - 48)"
proof -
  define b where "b = framed_bits ! i - 48"
  let ?out = "write_lsb carrier_samples (length framed_bits) (map (\<lambda>c. c - 48) framed_bits)"
  have b: "b = 0 \<or> b = 1"
    using bits_only_nth [OF assms(1) assms(3)] by (auto simp: b_def)
  have "?out ! i = (carrier_samples ! i AND 0xFE) OR of_nat b"
    using assms(2,3) by (simp add: nth_write_lsb b_def del: of_nat_diff)
  then have "?out ! i = (carrier_samples ! i AND 0xFE) OR of_nat b
      \<and> ?out ! i AND 0xFE = carrier_samples ! i AND 0xFE
      \<and> ?out ! i AND 1 = of_nat b"
    by (simp only: written_lsb [OF b] written_high_bits [OF b])
  then show ?thesis
    unfolding b_def
    using embed_lsb_bits [OF assms(1,2)] rgb_hide_loop_write_lsb [OF assms(1,2)]
    by blast
qed

theorem embedder_write_formula_witness:
  "\<exists>out. embed_lsb [6, 7, 8, 9] (str ''101'') = Inr out
         \<and> rgb_hide_loop (str ''101'') 0 [6, 7, 8, 9] = (out, None)
         \<and> out ! 0 = 7 \<and> out ! 1 = 6"
proof -
  have b: "bits_only (str ''101'')" and l: "length (str ''101'') \<le> length [6, 7, 8, 9 :: sample]"
    by (simp_all add: str_def)
  from embedder_write_formula [OF b l, of 0]
  obtain out where out: "embed_lsb [6, 7, 8, 9] (str ''101'') = Inr out"
      "rgb_hide_loop (str ''101'') 0 [6, 7, 8, 9] = (out, None)"
    and v0: "out ! 0 = ([6, 7, 8, 9] ! 0 AND 0xFE) OR of_nat (str ''101'' ! 0 - 48)"
    by (auto simp: str_def)
  from embedder_write_formula [OF b l, of 1] out(1)
  have v1: "out ! 1 = ([6, 7, 8, 9] ! 1 AND 0xFE) OR of_nat (str ''101'' ! 1 - 48)"
    by (auto simp: str_def)
  from v0 have "out ! 0 = 7" by (simp add: str_def)
  moreover from v1 have "out ! 1 = 6" by (simp add: str_def)
  ultimately show ?thesis using out by blast
qed

text \<open>
  C4 (frame condition of embed). Whenever \<open>hide_text_in_image\<close> of either class writes
  an output, the output has as many samples as the carrier, and every sample at an
  index at or beyond the number of bits of the text with its delimiter is the carrier's
  sample, unchanged in all its bits.
\<close>

theorem embed_frame:
  "(saved (hide_text_in_image img msg) = Some out \<longrightarrow>
      length out = length img
      \<and> (\<forall>i<length img. length (string_to_binary (msg @ delimiter)) \<le> i \<longrightarrow> out ! i = img ! i))
   \<and> (saved (rgb_hide_text_in_image img msg) = Some out \<longrightarrow>
      length out = length img
      \<and> (\<forall>i<length img.
            length (string_to_binary (msg @ rgb_delimiter)) \<le> i \<longrightarrow> out ! i = img ! i))"
proof (intro conjI impI)
  let ?n = "length (string_to_binary (msg @ delimiter))"
  assume s: "saved (hide_text_in_image img msg) = Some out"
  have fits: "?n \<le> length img"
  proof (rule ccontr)
    assume "\<not> ?n \<le> length img"
    then have "length img < ?n" by simp
    from hide_text_in_image_too_small [OF this] s show False by simp
  qed
  from s have out: "out = write_lsb img ?n (map (\<lambda>c. c - 48) (string_to_binary (msg @ delimiter)))"
    by (simp add: hide_text_in_image_fits [OF fits])
  show "length out = length img"
    using fits by (simp add: out length_write_lsb)
  show "\<forall>i<length img. ?n \<le> i \<longrightarrow> out ! i = img ! i"
    using fits by (simp add: out nth_write_lsb)
next
  let ?n = "length (string_to_binary (msg @ rgb_delimiter))"
  assume s: "saved (rgb_hide_text_in_image img msg) = Some out"
  have fits: "?n \<le> length img"
  proof (rule ccontr)
    assume "\<not> ?n \<le> length img"
    then have "length img < ?n" by simp
    from rgb_hide_text_in_image_too_long [OF this] s show False by simp
  qed
  from s have out: "out = write_lsb img ?n (map (\<lambda>c. c - 48) (string_to_binary (msg @ rgb_delimiter)))"
    by (simp add: rgb_hide_text_in_image_fits [OF fits] Let_def)
  show "length out = length img"
    using fits by (simp add: out length_write_lsb)
  show "\<forall>i<length img. ?n \<le> i \<longrightarrow> out ! i = img ! i"
    using fits by (simp add: out nth_write_lsb)
qed

theorem embed_frame_witness:
  "(\<exists>out. saved (hide_text_in_image (replicate 200 5) []) = Some out
          \<and> length out = 200 \<and> out ! 192 = 5 \<and> out ! 199 = 5)
   \<and> (\<exists>out. saved (rgb_hide_text_in_image (replicate 200 5) []) = Some out
          \<and> length out = 200 \<and> out ! 72 = 5 \<and> out ! 199 = 5)"
proof -
  have "length (string_to_binary ([] @ delimiter)) \<le> length (replicate 200 (5 :: sample))"
    by (simp only: length_framed_empty) simp
  from hide_text_in_image_fits [OF this]
  obtain out where s: "saved (hide_text_in_image (replicate 200 5) []) = Some out"
    by simp
  have "length (string_to_binary ([] @ rgb_delimiter)) \<le> length (replicate 200 (5 :: sample))"
    by (simp only: length_framed_empty) simp
  from rgb_hide_text_in_image_fits [OF this]
  obtain out' where s': "saved (rgb_hide_text_in_image (replicate 200 5) []) = Some out'"
    by (simp add: Let_def)
  from embed_frame [of "replicate 200 5" "[]" out] s
  have "length out = 200 \<and> out ! 192 = 5 \<and> out ! 199 = 5"
    by (simp only: length_framed_empty length_replicate) simp
  moreover from embed_frame [of "replicate 200 5" "[]" out'] s'
  have "length out' = 200 \<and> out' ! 72 = 5 \<and> out' ! 199 = 5"
    by (simp only: length_framed_empty length_replicate) simp
  ultimately show ?thesis using s s' by blast
qed

section \<open>Extraction in stag.py\<close>

lemma str_find_first:
  assumes "\<forall>j<n. \<not> prefix d (drop j s)" and "n \<le> length s" and "prefix d (drop n s)"
  shows "str_find s d = int n"
  using assms
proof (induction s arbitrary: n)
  case Nil
  then show ?case by simp
next
  case (Cons c s)
  show ?case
  proof (cases n)
    case 0
    with Cons.prems show ?thesis by simp
  next
    case (Suc m)
    have "\<not> prefix d (c # s)"
      using Cons.prems(1) Suc by (metis drop0 zero_less_Suc)
    moreover have "\<forall>j<m. \<not> prefix d (drop j s)"
    proof (intro allI impI)
      fix j assume "j < m"
      then have "Suc j < n" using Suc by simp
      with Cons.prems(1) have "\<not> prefix d (drop (Suc j) (c # s))" by blast
      then show "\<not> prefix d (drop j s)" by simp
    qed
    then have "str_find s d = int m"
      using Cons.prems Suc by (intro Cons.IH) auto
    ultimately show ?thesis using Suc by (simp add: Let_def)
  qed
qed

lemma str_find_none:
  assumes "\<forall>j\<le>length s. \<not> prefix d (drop j s)"
  shows "str_find s d = - 1"
  using assms
proof (induction s)
  case Nil
  then show ?case by auto
next
  case (Cons c s)
  have "\<not> prefix d (c # s)"
    using Cons.prems by (metis drop0 le0)
  moreover have "\<forall>j\<le>length s. \<not> prefix d (drop j s)"
  proof (intro allI impI)
    fix j assume "j \<le> length s"
    then have "Suc j \<le> length (c # s)" by simp
    with Cons.prems have "\<not> prefix d (drop (Suc j) (c # s))" by blast
    then show "\<not> prefix d (drop j s)" by simp
  qed
  ultimately show ?case using Cons.IH by (simp add: Let_def)
qed

lemma prefix_append_long: "length d \<le> length xs \<Longrightarrow> prefix d (xs @ r) \<longleftrightarrow> prefix d xs"
  by (auto simp: prefix_append)

lemma no_early_match_append:
  assumes "no_early_match a d" and "j < length a"
  shows "\<not> prefix d (drop j (a @ d @ r))"
proof -
  have "\<not> prefix d (drop j (a @ d))"
    using assms by (simp add: no_early_match_def list_all_iff)
  moreover have "drop j (a @ d @ r) = drop j (a @ d) @ r"
    using assms(2) by simp
  moreover have "length d \<le> length (drop j (a @ d))"
    using assms(2) by simp
  ultimately show ?thesis by (metis prefix_append_long)
qed

lemma str_find_delimiter:
  assumes "no_early_match a d"
  shows "str_find (a @ d @ r) d = int (length a)"
proof (rule str_find_first)
  show "\<forall>j<length a. \<not> prefix d (drop j (a @ d @ r))"
    using no_early_match_append [OF assms] by blast
  show "length a \<le> length (a @ d @ r)" by simp
  show "prefix d (drop (length a) (a @ d @ r))" by simp
qed

text \<open>What \<open>extract_text_from_image\<close> of stag.py reads from an image that
  \<open>hide_text_in_image\<close> wrote: the text before the first delimiter.\<close>

lemma extract_hidden:
  assumes small: "\<forall>c\<in>set msg. c \<le> 255"
    and fits: "8 * (length msg + length delimiter) \<le> length img"
    and shape: "msg @ delimiter = a @ delimiter @ r"
    and first: "no_early_match a delimiter"
  shows "\<exists>out. saved (hide_text_in_image img msg) = Some out
           \<and> extract_text_from_image out = Inr a"
proof -
  let ?framed = "string_to_binary (msg @ delimiter)"
  let ?out = "write_lsb img (length ?framed) (map (\<lambda>c. c - 48) ?framed)"
  have small': "\<forall>c\<in>set (msg @ delimiter). c \<le> 255"
    using small length_delimiter(2) by auto
  have len: "length ?framed \<le> length img"
    using fits by (simp add: length_string_to_binary [OF small'])
  have s: "saved (hide_text_in_image img msg) = Some ?out"
    by (simp add: hide_text_in_image_fits [OF len])
  have "lsb_string ?out = ?framed @ lsb_string (drop (length ?framed) img)"
    using bits_only_string_to_binary len by (rule lsb_string_write_lsb)
  moreover from decoded_prefix [OF small' bits_only_lsb_string]
  obtain g where "binary_to_string (?framed @ lsb_string (drop (length ?framed) img))
                    = Inr ((msg @ delimiter) @ g)"
    by blast
  ultimately have "binary_to_string (lsb_string ?out) = Inr (a @ delimiter @ (r @ g))"
    by (simp add: shape)
  then have "extract_text_from_image ?out = Inr a"
    by (simp add: extract_text_from_image_def Let_def str_find_delimiter [OF first])
  with s show ?thesis by blast
qed

section \<open>Extraction in sdfbhzdf.py\<close>

lemma rgb_extract_loop_stop:
  "\<not> i < length binary_data \<Longrightarrow> rgb_extract_loop binary_data delimiter_bits i message = Inr message"
  by (subst rgb_extract_loop.simps) simp

lemma rgb_extract_loop_found:
  assumes "i < length binary_data" and "i + length delimiter_bits \<le> length binary_data"
    and "take (length delimiter_bits) (drop i binary_data) = delimiter_bits"
  shows "rgb_extract_loop binary_data delimiter_bits i message = Inr message"
  by (subst rgb_extract_loop.simps) (simp add: assms)

lemma rgb_extract_loop_step:
  assumes "i < length binary_data"
    and "\<not> (i + length delimiter_bits \<le> length binary_data
            \<and> take (length delimiter_bits) (drop i binary_data) = delimiter_bits)"
    and "int_base2 (take 8 (drop i binary_data)) = Inr char_code"
    and "py_chr char_code = Inr c"
  shows "rgb_extract_loop binary_data delimiter_bits i message =
           rgb_extract_loop binary_data delimiter_bits (i + 8) (message @ [c])"
  using assms by (subst rgb_extract_loop.simps) (auto simp: Let_def)

text \<open>The window that the scan compares with the delimiter's bits, at the start of a
  character of the framed text.\<close>

lemma window_matches:
  assumes small: "\<forall>c\<in>set framed. c \<le> 255" and d: "\<forall>c\<in>set d. c \<le> 255"
    and inside: "k + length d \<le> length framed"
  shows "take (length (string_to_binary d)) (drop (8 * k) (string_to_binary framed @ rest))
           = string_to_binary d \<longleftrightarrow> prefix d (drop k framed)"
proof -
  let ?w = "take (length d) (drop k framed)"
  have w: "\<forall>c\<in>set ?w. c \<le> 255"
    using small by (auto dest!: in_set_takeD in_set_dropD)
  have "take (length (string_to_binary d)) (drop (8 * k) (string_to_binary framed @ rest))
          = string_to_binary ?w"
    by (simp only: length_string_to_binary [OF d] string_to_binary_slice [OF small inside])
  moreover have "string_to_binary ?w = string_to_binary d \<longleftrightarrow> ?w = d"
    using string_to_binary_inject [OF w d] by auto
  moreover have "?w = d \<longleftrightarrow> prefix d (drop k framed)"
    using inside by (metis append_take_drop_id prefixI prefixE append_eq_conv_conj)
  ultimately show ?thesis by simp
qed

lemma rgb_extract_loop_hidden:
  assumes small: "\<forall>c\<in>set (a @ d @ r). c \<le> 255" and nonempty: "d \<noteq> []"
    and first: "no_early_match a d" and rest: "bits_only rest"
    and k: "k \<le> length a"
  shows "rgb_extract_loop (string_to_binary (a @ d @ r) @ rest) (string_to_binary d) (8 * k) message
           = Inr (message @ drop k a)"
  using k
proof (induction "length a - k" arbitrary: k message)
  case 0
  let ?bd = "string_to_binary (a @ d @ r) @ rest"
  from 0 have k: "k = length a" by simp
  have d: "\<forall>c\<in>set d. c \<le> 255" using small by simp
  have len: "length ?bd = 8 * (length a + length d + length r) + length rest"
    by (simp add: length_string_to_binary [OF small])
  have "0 < length d" using nonempty by simp
  then have lt: "8 * k < length ?bd" unfolding len k by simp
  have fit: "8 * k + length (string_to_binary d) \<le> length ?bd"
    unfolding len k by (simp add: length_string_to_binary [OF d])
  have "prefix d (drop k (a @ d @ r))" by (simp add: k)
  then have "take (length (string_to_binary d)) (drop (8 * k) ?bd) = string_to_binary d"
    using window_matches [OF small d, of k rest] by (simp add: k)
  from rgb_extract_loop_found [OF lt fit this] show ?case by (simp add: k)
next
  case (Suc n)
  let ?bd = "string_to_binary (a @ d @ r) @ rest"
  from Suc have k: "k < length a" by simp
  have d: "\<forall>c\<in>set d. c \<le> 255" using small by simp
  have len: "length ?bd = 8 * (length a + length d + length r) + length rest"
    by (simp add: length_string_to_binary [OF small])
  have lt: "8 * k < length ?bd" unfolding len using k by simp
  have "\<not> prefix d (drop k (a @ d @ r))"
    using no_early_match_append [OF first k] .
  then have nomatch: "\<not> (8 * k + length (string_to_binary d) \<le> length ?bd
      \<and> take (length (string_to_binary d)) (drop (8 * k) ?bd) = string_to_binary d)"
    using window_matches [OF small d, of k rest] k by simp
  have kk: "k < length (a @ d @ r)" using k by simp
  have byte: "take 8 (drop (8 * k) ?bd) = format_08b (a ! k)"
    using string_to_binary_byte [OF small kk, of rest] k by (simp add: nth_append)
  have ak: "a ! k \<le> 255" using small k by simp
  have "format_08b (a ! k) \<noteq> []"
    using length_format_08b [of "a ! k"] ak by auto
  then have v: "int_base2 (take 8 (drop (8 * k) ?bd)) = Inr (a ! k)"
    unfolding byte by (simp add: int_base2_bits bits_only_format_08b bin_value_format_08b)
  have c: "py_chr (a ! k) = Inr (a ! k)"
    using ak by (simp add: py_chr_def)
  have "rgb_extract_loop ?bd (string_to_binary d) (8 * k) message
          = rgb_extract_loop ?bd (string_to_binary d) (8 * k + 8) (message @ [a ! k])"
    using lt nomatch v c by (rule rgb_extract_loop_step)
  also have "8 * k + 8 = 8 * Suc k" by simp
  also have "rgb_extract_loop ?bd (string_to_binary d) (8 * Suc k) (message @ [a ! k])
               = Inr ((message @ [a ! k]) @ drop (Suc k) a)"
    using Suc k by (intro Suc.hyps(1)) auto
  also have "(message @ [a ! k]) @ drop (Suc k) a = message @ drop k a"
    using k by (simp add: Cons_nth_drop_Suc)
  finally show ?case .
qed

text \<open>What \<open>extract_text_from_image\<close> of sdfbhzdf.py reads from an image that
  \<open>hide_text_in_image\<close> wrote: the text before the first delimiter, and the string
  \<open>No hidden message found.\<close> when that text is empty.\<close>

lemma rgb_extract_hidden:
  assumes small: "\<forall>c\<in>set msg. c \<le> 255"
    and fits: "8 * (length msg + length rgb_delimiter) \<le> length img"
    and shape: "msg @ rgb_delimiter = a @ rgb_delimiter @ r"
    and first: "no_early_match a rgb_delimiter"
  shows "\<exists>out. saved (rgb_hide_text_in_image img msg) = Some out
           \<and> rgb_extract_text_from_image out = Inr (if a \<noteq> [] then a else no_hidden_message)"
proof -
  let ?framed = "string_to_binary (msg @ rgb_delimiter)"
  let ?out = "write_lsb img (length ?framed) (map (\<lambda>c. c - 48) ?framed)"
  let ?rest = "lsb_string (drop (length ?framed) img)"
  have small': "\<forall>c\<in>set (msg @ rgb_delimiter). c \<le> 255"
    using small length_rgb_delimiter(2) by auto
  then have small'': "\<forall>c\<in>set (a @ rgb_delimiter @ r). c \<le> 255"
    by (simp only: shape)
  have len: "length ?framed \<le> length img"
    using fits by (simp add: length_string_to_binary [OF small'])
  have s: "saved (rgb_hide_text_in_image img msg) = Some ?out"
    by (simp add: rgb_hide_text_in_image_fits [OF len] Let_def)
  have "lsb_string ?out = ?framed @ ?rest"
    using bits_only_string_to_binary len by (rule lsb_string_write_lsb)
  then have bd: "lsb_string ?out = string_to_binary (a @ rgb_delimiter @ r) @ ?rest"
    by (simp only: shape)
  have "rgb_delimiter \<noteq> []"
    using length_rgb_delimiter(1) by auto
  from rgb_extract_loop_hidden [OF small'' this first bits_only_lsb_string, where k = 0 and message = "[]"]
  have "rgb_extract_loop (lsb_string ?out) (string_to_binary rgb_delimiter) 0 [] = Inr a"
    by (simp add: bd)
  then have "rgb_extract_text_from_image ?out = Inr (if a \<noteq> [] then a else no_hidden_message)"
    by (simp add: rgb_extract_text_from_image_def Let_def rgb_binary_text)
  with s show ?thesis by blast
qed

section \<open>Hiding, then extracting\<close>

lemma no_early_match_Nil: "no_early_match [] d"
  by (simp add: no_early_match_def)

text \<open>
  C1, as the code has it (round trip). Let all characters of the payload have code points
  at most 255, and let the delimiter occur in payload + delimiter nowhere before the end
  of the payload. On every carrier of at least \<open>8 * (len(payload) + len(delimiter))\<close>
  samples, \<open>hide_text_in_image\<close> of stag.py writes an image from which
  \<open>extract_text_from_image\<close> returns the payload; the same holds in sdfbhzdf.py for a
  payload that is not empty.
\<close>

theorem roundtrip:
  assumes "\<forall>c\<in>set payload. c \<le> 255"
  shows "(8 * (length payload + length delimiter) \<le> length img
          \<and> no_early_match payload delimiter \<longrightarrow>
            (\<exists>out. saved (hide_text_in_image img payload) = Some out
                 \<and> extract_text_from_image out = Inr payload))
       \<and> (8 * (length payload + length rgb_delimiter) \<le> length img
          \<and> no_early_match payload rgb_delimiter \<and> payload \<noteq> [] \<longrightarrow>
            (\<exists>out. saved (rgb_hide_text_in_image img payload) = Some out
                 \<and> rgb_extract_text_from_image out = Inr payload))"
proof (intro conjI impI)
  assume "8 * (length payload + length delimiter) \<le> length img
          \<and> no_early_match payload delimiter"
  then show "\<exists>out. saved (hide_text_in_image img payload) = Some out
                 \<and> extract_text_from_image out = Inr payload"
    using extract_hidden [OF assms, of img payload "[]"] by simp
next
  assume "8 * (length payload + length rgb_delimiter) \<le> length img
          \<and> no_early_match payload rgb_delimiter \<and> payload \<noteq> []"
  then show "\<exists>out. saved (rgb_hide_text_in_image img payload) = Some out
                 \<and> rgb_extract_text_from_image out = Inr payload"
    using rgb_extract_hidden [OF assms, of img payload "[]"] by simp
qed

theorem roundtrip_witness:
  "(\<exists>out. saved (hide_text_in_image (replicate 300 7) (str ''HELLO'')) = Some out
         \<and> extract_text_from_image out = Inr (str ''HELLO''))
   \<and> (\<exists>out. saved (rgb_hide_text_in_image (replicate 300 7) (str ''HELLO'')) = Some out
         \<and> rgb_extract_text_from_image out = Inr (str ''HELLO''))"
proof -
  have small: "\<forall>c\<in>set (str ''HELLO''). c \<le> 255"
    by (simp add: str_def)
  have "no_early_match (str ''HELLO'') delimiter"
    and "no_early_match (str ''HELLO'') rgb_delimiter"
    by (simp_all add: no_early_match_def delimiter_def rgb_delimiter_def str_def upt_rec)
  moreover have "8 * (length (str ''HELLO'') + length delimiter) \<le> length (replicate 300 (7 :: sample))"
    and "8 * (length (str ''HELLO'') + length rgb_delimiter) \<le> length (replicate 300 (7 :: sample))"
    and "str ''HELLO'' \<noteq> []"
    by (simp_all add: length_delimiter length_rgb_delimiter str_def)
  ultimately show ?thesis
    using roundtrip [OF small, of "replicate 300 7"] by blast
qed

theorem roundtrip_counterexample:
  "\<exists>out. saved (hide_text_in_image (replicate 384 0) delimiter) = Some out
         \<and> extract_text_from_image out = Inr []
         \<and> extract_text_from_image out \<noteq> Inr delimiter"
proof -
  have "8 * (length delimiter + length delimiter) \<le> length (replicate 384 (0 :: sample))"
    by (simp add: length_delimiter)
  from extract_hidden [OF length_delimiter(2) this, of "[]" delimiter] no_early_match_Nil
  obtain out where "saved (hide_text_in_image (replicate 384 0) delimiter) = Some out"
    and "extract_text_from_image out = Inr []"
    by auto
  moreover have "delimiter \<noteq> []"
    using length_delimiter(1) by auto
  ultimately show ?thesis by auto
qed

text \<open>
  C7, as the code has it (empty payload and the no-data result). In stag.py, extracting
  from a carrier into which the empty string was hidden returns the empty string, which
  is not the string \<open>No hidden text found or delimiter not detected\<close>. In sdfbhzdf.py
  an empty message is reported as no message: extracting from a carrier into which the
  empty string was hidden returns the string \<open>No hidden message found.\<close>
\<close>

theorem empty_payload_result:
  "(8 * length delimiter \<le> length img \<longrightarrow>
      (\<exists>out. saved (hide_text_in_image img []) = Some out
           \<and> extract_text_from_image out = Inr []
           \<and> extract_text_from_image out \<noteq> Inr no_hidden_text))
   \<and> (8 * length rgb_delimiter \<le> length img \<longrightarrow>
      (\<exists>out. saved (rgb_hide_text_in_image img []) = Some out
           \<and> rgb_extract_text_from_image out = Inr no_hidden_message))"
proof (intro conjI impI)
  assume "8 * length delimiter \<le> length img"
  then have "8 * (length ([] :: pystr) + length delimiter) \<le> length img" by simp
  from extract_hidden [OF _ this, of "[]" "[]"] no_early_match_Nil
  obtain out where "saved (hide_text_in_image img []) = Some out"
    and "extract_text_from_image out = Inr []"
    by auto
  moreover have "no_hidden_text \<noteq> []"
    by (simp add: no_hidden_text_def str_def)
  ultimately show "\<exists>out. saved (hide_text_in_image img []) = Some out
           \<and> extract_text_from_image out = Inr []
           \<and> extract_text_from_image out \<noteq> Inr no_hidden_text"
    by auto
next
  assume "8 * length rgb_delimiter \<le> length img"
  then have "8 * (length ([] :: pystr) + length rgb_delimiter) \<le> length img" by simp
  from rgb_extract_hidden [OF _ this, of "[]" "[]"] no_early_match_Nil
  show "\<exists>out. saved (rgb_hide_text_in_image img []) = Some out
           \<and> rgb_extract_text_from_image out = Inr no_hidden_message"
    by auto
qed

theorem empty_payload_result_witness:
  "(\<exists>out. saved (hide_text_in_image (replicate 300 9) []) = Some out
         \<and> extract_text_from_image out = Inr []
         \<and> extract_text_from_image out \<noteq> Inr no_hidden_text)
   \<and> (\<exists>out. saved (rgb_hide_text_in_image (replicate 300 9) []) = Some out
         \<and> rgb_extract_text_from_image out = Inr no_hidden_message)"
  using empty_payload_result [of "replicate 300 9"]
  by (simp add: length_delimiter length_rgb_delimiter)

theorem empty_payload_counterexample:
  "\<exists>out. saved (rgb_hide_text_in_image (replicate 72 0) []) = Some out
         \<and> rgb_extract_text_from_image out = Inr no_hidden_message
         \<and> rgb_extract_text_from_image out \<noteq> Inr []"
proof -
  have "8 * (length ([] :: pystr) + length rgb_delimiter) \<le> length (replicate 72 (0 :: sample))"
    by (simp add: length_rgb_delimiter)
  from rgb_extract_hidden [OF _ this, of "[]" "[]"] no_early_match_Nil
  obtain out where "saved (rgb_hide_text_in_image (replicate 72 0) []) = Some out"
    and "rgb_extract_text_from_image out = Inr no_hidden_message"
    by auto
  moreover have "no_hidden_message \<noteq> []"
    by (simp add: no_hidden_message_def str_def)
  ultimately show ?thesis by auto
qed

text \<open>
  C8, as the code has it (truncation at the delimiter). Let the payload be
  \<open>a + delimiter + b\<close> with all code points at most 255, and let the delimiter occur in
  \<open>a + delimiter\<close> nowhere before the end of \<open>a\<close>. On every carrier that holds the
  payload with its delimiter, extraction after hiding returns \<open>a\<close> in stag.py, and in
  sdfbhzdf.py when \<open>a\<close> is not empty.
\<close>

theorem delimiter_truncation:
  assumes "\<forall>c\<in>set (a @ b). c \<le> 255"
  shows "(8 * (length (a @ delimiter @ b) + length delimiter) \<le> length img
          \<and> no_early_match a delimiter \<longrightarrow>
            (\<exists>out. saved (hide_text_in_image img (a @ delimiter @ b)) = Some out
                 \<and> extract_text_from_image out = Inr a))
       \<and> (8 * (length (a @ rgb_delimiter @ b) + length rgb_delimiter) \<le> length img
          \<and> no_early_match a rgb_delimiter \<and> a \<noteq> [] \<longrightarrow>
            (\<exists>out. saved (rgb_hide_text_in_image img (a @ rgb_delimiter @ b)) = Some out
                 \<and> rgb_extract_text_from_image out = Inr a))"
proof (intro conjI impI)
  assume h: "8 * (length (a @ delimiter @ b) + length delimiter) \<le> length img
          \<and> no_early_match a delimiter"
  have small: "\<forall>c\<in>set (a @ delimiter @ b). c \<le> 255"
    using assms length_delimiter(2) by auto
  have "(a @ delimiter @ b) @ delimiter = a @ delimiter @ (b @ delimiter)" by simp
  from extract_hidden [OF small _ this] h
  show "\<exists>out. saved (hide_text_in_image img (a @ delimiter @ b)) = Some out
                 \<and> extract_text_from_image out = Inr a"
    by blast
next
  assume h: "8 * (length (a @ rgb_delimiter @ b) + length rgb_delimiter) \<le> length img
          \<and> no_early_match a rgb_delimiter \<and> a \<noteq> []"
  have small: "\<forall>c\<in>set (a @ rgb_delimiter @ b). c \<le> 255"
    using assms length_rgb_delimiter(2) by auto
  have "(a @ rgb_delimiter @ b) @ rgb_delimiter = a @ rgb_delimiter @ (b @ rgb_delimiter)"
    by simp
  from rgb_extract_hidden [OF small _ this] h
  show "\<exists>out. saved (rgb_hide_text_in_image img (a @ rgb_delimiter @ b)) = Some out
                 \<and> rgb_extract_text_from_image out = Inr a"
    by auto
qed

theorem delimiter_truncation_witness:
  "(\<exists>out. saved (hide_text_in_image (replicate 500 3)
                  (str ''ab'' @ delimiter @ str ''cd'')) = Some out
         \<and> extract_text_from_image out = Inr (str ''ab''))
   \<and> (\<exists>out. saved (rgb_hide_text_in_image (replicate 500 3)
                    (str ''ab'' @ rgb_delimiter @ str ''cd'')) = Some out
         \<and> rgb_extract_text_from_image out = Inr (str ''ab''))"
proof -
  have small: "\<forall>c\<in>set (str ''ab'' @ str ''cd''). c \<le> 255"
    by (simp add: str_def)
  have "no_early_match (str ''ab'') delimiter"
    and "no_early_match (str ''ab'') rgb_delimiter"
    by (simp_all add: no_early_match_def delimiter_def rgb_delimiter_def str_def upt_rec)
  moreover have "8 * (length (str ''ab'' @ delimiter @ str ''cd'') + length delimiter)
                   \<le> length (replicate 500 (3 :: sample))"
    and "8 * (length (str ''ab'' @ rgb_delimiter @ str ''cd'') + length rgb_delimiter)
                   \<le> length (replicate 500 (3 :: sample))"
    and "str ''ab'' \<noteq> []"
    by (simp_all add: length_delimiter length_rgb_delimiter str_def)
  ultimately show ?thesis
    using delimiter_truncation [OF small, of "replicate 500 3"] by blast
qed

theorem delimiter_truncation_counterexample:
  "length (str ''x###END'') < length rgb_delimiter
   \<and> (\<exists>out. saved (rgb_hide_text_in_image (replicate 200 0)
                    (str ''x###END'' @ rgb_delimiter @ [])) = Some out
          \<and> rgb_extract_text_from_image out = Inr (str ''x'')
          \<and> rgb_extract_text_from_image out \<noteq> Inr (str ''x###END''))"
proof -
  let ?msg = "str ''x###END'' @ rgb_delimiter @ []"
  have small: "\<forall>c\<in>set ?msg. c \<le> 255"
    by (simp add: rgb_delimiter_def str_def)
  have fits: "8 * (length ?msg + length rgb_delimiter) \<le> length (replicate 200 (0 :: sample))"
    by (simp add: length_rgb_delimiter str_def)
  have shape: "?msg @ rgb_delimiter = str ''x'' @ rgb_delimiter @ (str ''END###'' @ rgb_delimiter)"
    by (simp add: rgb_delimiter_def str_def)
  have first: "no_early_match (str ''x'') rgb_delimiter"
    by (simp add: no_early_match_def rgb_delimiter_def str_def)
  from rgb_extract_hidden [OF small fits shape first]
  obtain out where "saved (rgb_hide_text_in_image (replicate 200 0) ?msg) = Some out"
    and "rgb_extract_text_from_image out = Inr (str ''x'')"
    by (auto simp: str_def)
  moreover have "str ''x'' \<noteq> str ''x###END''"
    by (simp add: str_def)
  moreover have "length (str ''x###END'') < length rgb_delimiter"
    by (simp add: length_rgb_delimiter str_def)
  ultimately show ?thesis by auto
qed

section \<open>The bits of a character\<close>

lemma padded_digits_Suc:
  assumes "0 < k"
  shows "replicate (Suc k - length (bin_digits n)) 48 @ bin_digits n
           = (replicate (k - length (bin_digits (n div 2))) 48 @ bin_digits (n div 2))
               @ [48 + n mod 2]"
proof (cases "n < 2")
  case True
  then have "bin_digits n = [48 + n]" "bin_digits (n div 2) = [48]" "n mod 2 = n"
    by (simp_all add: bin_digits.simps [of n] bin_digits.simps [of 0])
  moreover have "replicate (k - 1) 48 @ [48 :: nat] = replicate k 48"
    using assms by (cases k) (simp_all add: replicate_append_same)
  ultimately show ?thesis by simp
next
  case False
  then have "bin_digits n = bin_digits (n div 2) @ [48 + n mod 2]"
    by (simp add: bin_digits.simps [of n])
  then show ?thesis by simp
qed

lemma padded_digits:
  assumes "0 < k" and "n < 2 ^ k"
  shows "replicate (k - length (bin_digits n)) 48 @ bin_digits n
           = map (\<lambda>j. 48 + n div 2 ^ (k - 1 - j) mod 2) [0..<k]"
  using assms
proof (induction k arbitrary: n)
  case 0
  then show ?case by simp
next
  case (Suc k)
  show ?case
  proof (cases "k = 0")
    case True
    with Suc.prems have "n < 2" by simp
    then show ?thesis
      using True by (simp add: bin_digits.simps [of n])
  next
    case False
    then have k: "0 < k" by simp
    have half: "n div 2 < 2 ^ k" using Suc.prems by auto
    have "map (\<lambda>j. 48 + n div 2 ^ (Suc k - 1 - j) mod 2) [0..<k]
            = map (\<lambda>j. 48 + (n div 2) div 2 ^ (k - 1 - j) mod 2) [0..<k]"
    proof (rule map_cong [OF refl])
      fix j assume "j \<in> set [0..<k]"
      then have "Suc k - 1 - j = Suc (k - 1 - j)" by auto
      then show "48 + n div 2 ^ (Suc k - 1 - j) mod 2 = 48 + (n div 2) div 2 ^ (k - 1 - j) mod 2"
        by (simp add: div_mult2_eq)
    qed
    then have "map (\<lambda>j. 48 + n div 2 ^ (Suc k - 1 - j) mod 2) [0..<Suc k]
            = (replicate (k - length (bin_digits (n div 2))) 48 @ bin_digits (n div 2))
                @ [48 + n mod 2]"
      by (simp add: Suc.IH [OF k half])
    then show ?thesis
      by (simp only: padded_digits_Suc [OF k])
  qed
qed

lemma format_08b_msb_first: "c \<le> 255 \<Longrightarrow> format_08b c = msb_first_8 c"
  using padded_digits [of 8 c] by (simp add: format_08b_def msb_first_8_def)

lemma length_format_08b_ge: "8 \<le> length (format_08b n)"
  by (simp add: format_08b_def)

lemma length_string_to_binary_ge: "8 * length msg \<le> length (string_to_binary msg)"
proof (induction msg)
  case Nil
  show ?case by (simp add: string_to_binary_def)
next
  case (Cons c msg)
  then show ?case
    using length_format_08b_ge [of c] by (simp add: string_to_binary_def)
qed

lemma length_string_to_binary_wide:
  assumes "\<exists>c\<in>set msg. 255 < c"
  shows "8 * length msg < length (string_to_binary msg)"
proof -
  from assms obtain c where "c \<in> set msg" and "256 \<le> c" by auto
  then obtain xs ys where msg: "msg = xs @ c # ys"
    by (auto simp: in_set_conv_decomp)
  have "8 < length (format_08b c)"
    using format_08b_wide [OF \<open>256 \<le> c\<close>] by blast
  moreover have "string_to_binary msg
                   = string_to_binary xs @ format_08b c @ string_to_binary ys"
    by (simp add: msg string_to_binary_def)
  ultimately show ?thesis
    using length_string_to_binary_ge [of xs] length_string_to_binary_ge [of ys]
    by (simp add: msg)
qed

text \<open>
  C6, as the code has it (encoding). \<open>string_to_binary\<close> never fails. A string whose
  characters all have code points at most 255 gives exactly 8 bits for each character,
  most significant bit first, in the order of the characters. A character with a code
  point above 255 is not rejected: it gives all the binary digits of its code point,
  which are more than 8, so that a string with such a character gives more than 8 bits
  for each character on average.
\<close>

theorem encode_bits:
  "((\<forall>c\<in>set msg. c \<le> 255) \<longrightarrow>
      string_to_binary msg = concat (map msb_first_8 msg)
      \<and> length (string_to_binary msg) = 8 * length msg)
   \<and> (255 < c \<longrightarrow>
      string_to_binary [c] = bin_digits c \<and> 8 < length (string_to_binary [c]))
   \<and> ((\<exists>c\<in>set msg. 255 < c) \<longrightarrow> 8 * length msg < length (string_to_binary msg))"
proof (intro conjI impI)
  assume small: "\<forall>c\<in>set msg. c \<le> 255"
  then have "map (\<lambda>char. format_08b char) msg = map msb_first_8 msg"
    by (intro map_cong refl format_08b_msb_first) simp
  then show "string_to_binary msg = concat (map msb_first_8 msg)"
    by (simp only: string_to_binary_def)
  show "length (string_to_binary msg) = 8 * length msg"
    using small by (rule length_string_to_binary)
next
  assume "255 < c"
  then have wide: "256 \<le> c" by simp
  have single: "string_to_binary [c] = format_08b c"
    by (simp add: string_to_binary_def)
  show "string_to_binary [c] = bin_digits c"
    using format_08b_wide [OF wide] unfolding single by blast
  show "8 < length (string_to_binary [c])"
    using format_08b_wide [OF wide] unfolding single by blast
next
  assume "\<exists>c\<in>set msg. 255 < c"
  then show "8 * length msg < length (string_to_binary msg)"
    by (rule length_string_to_binary_wide)
qed

lemma bin_digits_256: "bin_digits 256 = str ''100000000''"
  by (simp add: bin_digits.simps [of 256] bin_digits.simps [of 128] bin_digits.simps [of 64]
      bin_digits.simps [of 32] bin_digits.simps [of 16] bin_digits.simps [of 8]
      bin_digits.simps [of 4] bin_digits.simps [of 2] bin_digits.simps [of "Suc 0"] str_def)

theorem encode_bits_witness:
  "string_to_binary (str ''A'') = str ''01000001''
   \<and> length (string_to_binary (str ''A'')) = 8
   \<and> string_to_binary [300] = bin_digits 300 \<and> 8 < length (string_to_binary [300])
   \<and> 8 * length [65, 300 :: nat] < length (string_to_binary [65, 300])"
proof -
  have small: "\<forall>c\<in>set (str ''A''). c \<le> 255" and wide: "(255 :: nat) < 300"
    by (simp_all add: str_def)
  from encode_bits [of "str ''A''" 300] small wide
  have enc: "string_to_binary (str ''A'') = concat (map msb_first_8 (str ''A''))"
    and len: "length (string_to_binary (str ''A'')) = 8 * length (str ''A'')"
    and w: "string_to_binary [300] = bin_digits 300 \<and> 8 < length (string_to_binary [300])"
    by blast+
  have "concat (map msb_first_8 (str ''A'')) = str ''01000001''"
    by (simp add: str_def msb_first_8_def upt_rec)
  with enc have e: "string_to_binary (str ''A'') = str ''01000001''"
    by (simp only:)
  have "8 * length (str ''A'') = 8"
    by (simp add: str_def)
  with len have l: "length (string_to_binary (str ''A'')) = 8"
    by (simp only:)
  have "\<exists>c\<in>set [65, 300 :: nat]. 255 < c" by simp
  with encode_bits [of "[65, 300]"]
  have "8 * length [65, 300 :: nat] < length (string_to_binary [65, 300])" by blast
  with e l w show ?thesis by blast
qed

theorem encode_bits_counterexample:
  "string_to_binary [256] = str ''100000000''
   \<and> returned (hide_text_in_image (replicate 201 0) [256])
   \<and> returned (rgb_hide_text_in_image (replicate 81 0) [256])"
proof -
  have "string_to_binary [256] = str ''100000000''"
    using format_08b_wide [of 256] by (simp add: string_to_binary_def bin_digits_256)
  moreover have "returned (hide_text_in_image (replicate 201 0) [256])"
  proof -
    have "length (string_to_binary ([256] @ delimiter)) \<le> length (replicate 201 (0 :: sample))"
      by (simp only: length_framed_wide length_replicate)
    from hide_text_in_image_fits [OF this] show ?thesis by simp
  qed
  moreover have "returned (rgb_hide_text_in_image (replicate 81 0) [256])"
  proof -
    have "length (string_to_binary ([256] @ rgb_delimiter)) \<le> length (replicate 81 (0 :: sample))"
      by (simp only: length_framed_wide length_replicate)
    from rgb_hide_text_in_image_fits [OF this] show ?thesis by (simp add: Let_def)
  qed
  ultimately show ?thesis by blast
qed

section \<open>Images without a delimiter\<close>

text \<open>stag.py reports an image whose decoded text holds no delimiter as having no hidden
  text, and never raises while extracting.\<close>

lemma extract_text_from_image_no_delimiter:
  "\<exists>t. binary_to_string (lsb_string img) = Inr t
       \<and> ((\<forall>j\<le>length t. \<not> prefix delimiter (drop j t)) \<longrightarrow>
            extract_text_from_image img = Inr no_hidden_text)"
proof -
  from binary_to_string_bits [OF bits_only_lsb_string, of img]
  obtain t where t: "binary_to_string (lsb_string img) = Inr t" by blast
  have "extract_text_from_image img = Inr no_hidden_text"
    if "\<forall>j\<le>length t. \<not> prefix delimiter (drop j t)"
    using str_find_none [OF that] t by (simp add: extract_text_from_image_def Let_def)
  with t show ?thesis by blast
qed

lemma decode_lengths:
  assumes "bits_only binary"
  shows "\<exists>t. binary_to_string binary = Inr t \<and> length t = length binary div 8"
  by (simp add: binary_to_string_bits [OF assms])

lemma lsb_string_white: "lsb_string (replicate n 255) = replicate n 49"
  by (simp add: lsb_string_map)

lemma int_base2_ones:
  "int_base2 (replicate 8 49) = Inr 255" "int_base2 (replicate 4 49) = Inr 15"
  by (simp_all add: int_base2_def eval_nat_numeral)

text \<open>
  C5 (no-data case) at an image that was never written to: a 2 by 2 RGB image whose 12
  samples are all 255. Its low-order bits hold no delimiter, which is 72 bits long.
  \<open>extract_text_from_image\<close> of sdfbhzdf.py returns the two characters decoded from
  the bits \<open>11111111\<close> and \<open>1111\<close>, not the string \<open>No hidden message found.\<close>
\<close>

theorem rgb_extract_without_delimiter:
  "rgb_extract_text_from_image (replicate 12 255) = Inr [255, 15]
   \<and> Inr [255, 15] \<noteq> (Inr no_hidden_message :: py_error + pystr)
   \<and> extract_text_from_image (replicate 12 255) = Inr no_hidden_text"
proof -
  let ?bd = "replicate 12 (49 :: nat)"
  let ?db = "string_to_binary rgb_delimiter"
  have db: "length ?db = 72"
    by (simp add: length_string_to_binary length_rgb_delimiter)
  have c: "py_chr 255 = Inr 255" "py_chr 15 = Inr 15"
    by (simp_all add: py_chr_def)
  have "rgb_extract_loop ?bd ?db 0 [] = rgb_extract_loop ?bd ?db (0 + 8) ([] @ [255])"
    by (rule rgb_extract_loop_step [OF _ _ _ c(1)]) (simp_all add: db int_base2_ones)
  also have "\<dots> = rgb_extract_loop ?bd ?db (0 + 8 + 8) (([] @ [255]) @ [15])"
    by (rule rgb_extract_loop_step [OF _ _ _ c(2)]) (simp_all add: db int_base2_ones)
  also have "\<dots> = Inr (([] @ [255]) @ [15])"
    by (rule rgb_extract_loop_stop) simp
  finally have "rgb_extract_text_from_image (replicate 12 255) = Inr [255, 15]"
    by (simp add: rgb_extract_text_from_image_def Let_def rgb_binary_text lsb_string_white)
  moreover have "no_hidden_message \<noteq> [255, 15]"
    by (simp add: no_hidden_message_def str_def)
  moreover have "extract_text_from_image (replicate 12 255) = Inr no_hidden_text"
  proof -
    from extract_text_from_image_no_delimiter [of "replicate 12 255"]
    obtain t where t: "binary_to_string (lsb_string (replicate 12 255)) = Inr t"
      and none: "(\<forall>j\<le>length t. \<not> prefix delimiter (drop j t)) \<longrightarrow>
            extract_text_from_image (replicate 12 255) = Inr no_hidden_text"
      by blast
    from decode_lengths [OF bits_only_lsb_string, of "replicate 12 255"] t
    have "length t = 1" by (auto simp: length_lsb_string)
    then have "\<forall>j\<le>length t. \<not> prefix delimiter (drop j t)"
      using length_delimiter(1) by (auto dest!: prefix_length_le)
    with none show ?thesis by blast
  qed
  ultimately show ?thesis by simp
qed

end
